theory Spec2Isabelle
  imports Main "HOL-Library.State_Monad" "HOL-Library.Word"
begin

section \<open>An instrumented semantics for the demonstration programs\<close>

text \<open>
  The five programs under \<^verbatim>\<open>src/examples\<close> exist to perform operations that C++ leaves
  undefined. They are embedded here the way a sanitizer in recovery mode runs them: every
  primitive operation on a program variable checks whether it is defined, records the
  operation together with the finding (if any) in a trace, and execution goes on. Where the
  operation is undefined its result is an indeterminate value, drawn from an environment
  that is part of the machine state, so that a statement about \<^emph>\<open>every\<close> execution is a
  statement about every environment.

  \<^verbatim>\<open>int\<close> is the 32-bit two's complement type of the platforms the examples target;
  \<^verbatim>\<open>INT_MAX\<close> comes from \<^verbatim>\<open><climits>\<close>.
\<close>

definition INT_BITS :: int where
  "INT_BITS = 32"

definition INT_MAX :: int where
  "INT_MAX = 2147483647"

definition INT_MIN :: int where
  "INT_MIN = - 2147483648"

text \<open>Reduction of a mathematical integer to the value of an \<^verbatim>\<open>int\<close> (modulo \<open>2 ^ 32\<close>).\<close>

definition wrap_int :: "int \<Rightarrow> int" where
  "wrap_int k = (k + 2147483648) mod 4294967296 - 2147483648"

subsection \<open>Memory\<close>

text \<open>
  A memory cell of type \<^verbatim>\<open>int\<close> either has never been written or holds a value. A pointer
  is null or the address of a heap object; a heap object is one cell and a flag that
  \<^verbatim>\<open>delete\<close> clears.
\<close>

datatype cell = Uninit | Init int

datatype ptr = Null | Addr nat

record hobj =
  content :: cell
  live :: bool

subsection \<open>Operations, findings, output\<close>

datatype operation =
    IntIncrement int
  | ShiftLeft int int
  | Divide int int
  | ArrayRead string int
  | ArrayWrite string int
  | VarRead string
  | PtrRead ptr
  | PtrWrite ptr
  | HeapNew ptr
  | HeapDelete ptr

datatype finding =
    SignedOverflow
  | ShiftOutOfBounds
  | DivisionByZero
  | IndexOutOfBounds
  | UninitializedRead
  | NullDereference
  | UseAfterFree
  | InvalidFree

type_synonym event = "operation \<times> finding option"

datatype out_item = OStr string | OInt int | OEndl

record machine =
  out :: "out_item list"
  trace :: "event list"
  heap :: "hobj list"
  garbage :: "nat \<Rightarrow> 32 word"
  used :: nat

definition initial :: "(nat \<Rightarrow> 32 word) \<Rightarrow> machine" where
  "initial g = \<lparr>out = [], trace = [], heap = [], garbage = g, used = 0\<rparr>"

fun is_division :: "operation \<Rightarrow> bool" where
  "is_division (Divide a b) = True"
| "is_division other = False"

fun is_pointer_deref :: "operation \<Rightarrow> bool" where
  "is_pointer_deref (PtrRead p) = True"
| "is_pointer_deref (PtrWrite p) = True"
| "is_pointer_deref other = False"

definition findings :: "event list \<Rightarrow> finding list" where
  "findings tr = List.map_filter snd tr"

subsection \<open>Primitives\<close>

text \<open>\<^verbatim>\<open>std::cout << a << b << ...\<close> appends the items to standard output.\<close>

definition print :: "out_item list \<Rightarrow> ('m machine_scheme, unit) state" where
  "print items = State_Monad.update (\<lambda>s. s\<lparr>out := out s @ items\<rparr>)"

definition report :: "operation \<Rightarrow> finding option \<Rightarrow> ('m machine_scheme, unit) state" where
  "report opn f = State_Monad.update (\<lambda>s. s\<lparr>trace := trace s @ [(opn, f)]\<rparr>)"

text \<open>The next indeterminate value of the environment; by its type it is an \<^verbatim>\<open>int\<close>.\<close>

definition indeterminate :: "('m machine_scheme, int) state" where
  "indeterminate = State (\<lambda>s. (sint (garbage s (used s)), s\<lparr>used := Suc (used s)\<rparr>))"

text \<open>\<^verbatim>\<open>x++\<close> on an \<^verbatim>\<open>int\<close>: undefined when \<open>x\<close> is \<^verbatim>\<open>INT_MAX\<close>.\<close>

definition int_incr :: "int \<Rightarrow> ('m machine_scheme, int) state" where
  "int_incr x =
     (if x = INT_MAX
      then do { report (IntIncrement x) (Some SignedOverflow); indeterminate }
      else do { report (IntIncrement x) None; State_Monad.return (x + 1) })"

text \<open>
  \<^verbatim>\<open>v << n\<close> on \<^verbatim>\<open>int\<close>: undefined when the shift amount is negative or at least the width
  of the type; otherwise (by the rule of C++20) the product reduced modulo \<open>2 ^ 32\<close>.
\<close>

definition shift_left :: "int \<Rightarrow> int \<Rightarrow> ('m machine_scheme, int) state" where
  "shift_left v n =
     (if n < 0 \<or> INT_BITS \<le> n
      then do { report (ShiftLeft v n) (Some ShiftOutOfBounds); indeterminate }
      else do { report (ShiftLeft v n) None; State_Monad.return (wrap_int (v * 2 ^ nat n)) })"

text \<open>
  \<^verbatim>\<open>a / b\<close> on \<^verbatim>\<open>int\<close>: undefined for a zero divisor and for \<^verbatim>\<open>INT_MIN / -1\<close>; otherwise
  the quotient truncated towards zero.
\<close>

definition int_div :: "int \<Rightarrow> int \<Rightarrow> ('m machine_scheme, int) state" where
  "int_div a b =
     (if b = 0
      then do { report (Divide a b) (Some DivisionByZero); indeterminate }
      else if a = INT_MIN \<and> b = - 1
      then do { report (Divide a b) (Some SignedOverflow); indeterminate }
      else do { report (Divide a b) None;
                State_Monad.return (sgn a * sgn b * (\<bar>a\<bar> div \<bar>b\<bar>)) })"

text \<open>
  \<^verbatim>\<open>arr[i]\<close> read from a local array (named for the trace): undefined outside the array,
  and a finding of its own when the cell was never written.
\<close>

definition array_read :: "string \<Rightarrow> cell list \<Rightarrow> int \<Rightarrow> ('m machine_scheme, int) state" where
  "array_read name arr i =
     (if i < 0 \<or> int (length arr) \<le> i
      then do { report (ArrayRead name i) (Some IndexOutOfBounds); indeterminate }
      else (case arr ! nat i of
              Uninit \<Rightarrow> do { report (ArrayRead name i) (Some UninitializedRead); indeterminate }
            | Init v \<Rightarrow> do { report (ArrayRead name i) None; State_Monad.return v }))"

text \<open>
  \<^verbatim>\<open>arr[i] = v\<close>: inside the array the cell is written. Outside, the write is a finding
  and the array keeps its contents (what else the write hits is not modelled).
\<close>

definition array_write ::
  "string \<Rightarrow> cell list \<Rightarrow> int \<Rightarrow> int \<Rightarrow> ('m machine_scheme, cell list) state" where
  "array_write name arr i v =
     (if i < 0 \<or> int (length arr) \<le> i
      then do { report (ArrayWrite name i) (Some IndexOutOfBounds); State_Monad.return arr }
      else do { report (ArrayWrite name i) None;
                State_Monad.return (arr[nat i := Init v]) })"

text \<open>A read of a local scalar whose initialisation is tracked.\<close>

definition var_read :: "string \<Rightarrow> cell \<Rightarrow> ('m machine_scheme, int) state" where
  "var_read name c =
     (case c of
        Uninit \<Rightarrow> do { report (VarRead name) (Some UninitializedRead); indeterminate }
      | Init v \<Rightarrow> do { report (VarRead name) None; State_Monad.return v })"

text \<open>\<^verbatim>\<open>new int(v)\<close>, \<^verbatim>\<open>delete p\<close>, and \<^verbatim>\<open>*p\<close> as a read and as a write.\<close>

definition new_int :: "int \<Rightarrow> ('m machine_scheme, ptr) state" where
  "new_int v = do {
     s \<leftarrow> State_Monad.get;
     let p = Addr (length (heap s));
     State_Monad.set (s\<lparr>heap := heap s @ [\<lparr>content = Init v, live = True\<rparr>]\<rparr>);
     report (HeapNew p) None;
     State_Monad.return p
   }"

definition delete_ptr :: "ptr \<Rightarrow> ('m machine_scheme, unit) state" where
  "delete_ptr p = do {
     s \<leftarrow> State_Monad.get;
     (case p of
        Null \<Rightarrow> report (HeapDelete p) None
      | Addr a \<Rightarrow>
          if a < length (heap s) \<and> live (heap s ! a)
          then do {
            State_Monad.set (s\<lparr>heap := (heap s)[a := (heap s ! a)\<lparr>live := False\<rparr>]\<rparr>);
            report (HeapDelete p) None
          }
          else report (HeapDelete p) (Some InvalidFree))
   }"

definition ptr_read :: "ptr \<Rightarrow> ('m machine_scheme, int) state" where
  "ptr_read p = do {
     s \<leftarrow> State_Monad.get;
     (case p of
        Null \<Rightarrow> do { report (PtrRead p) (Some NullDereference); indeterminate }
      | Addr a \<Rightarrow>
          if a < length (heap s) \<and> live (heap s ! a)
          then (case content (heap s ! a) of
                  Uninit \<Rightarrow> do { report (PtrRead p) (Some UninitializedRead); indeterminate }
                | Init v \<Rightarrow> do { report (PtrRead p) None; State_Monad.return v })
          else do { report (PtrRead p) (Some UseAfterFree); indeterminate })
   }"

definition ptr_write :: "ptr \<Rightarrow> int \<Rightarrow> ('m machine_scheme, unit) state" where
  "ptr_write p v = do {
     s \<leftarrow> State_Monad.get;
     (case p of
        Null \<Rightarrow> report (PtrWrite p) (Some NullDereference)
      | Addr a \<Rightarrow>
          if a < length (heap s) \<and> live (heap s ! a)
          then do {
            State_Monad.set (s\<lparr>heap := (heap s)[a := (heap s ! a)\<lparr>content := Init v\<rparr>]\<rparr>);
            report (PtrWrite p) None
          }
          else report (PtrWrite p) (Some UseAfterFree))
   }"

subsection \<open>Array declarations\<close>

text \<open>
  \<^verbatim>\<open>int a[n];\<close> at block scope leaves every element unwritten. \<^verbatim>\<open>int a[n] = {v1, ..., vk};\<close>
  is aggregate initialisation: the first \<open>k\<close> elements are copy-initialised from the list and
  each remaining element is value-initialised, which for \<^verbatim>\<open>int\<close> writes 0.
\<close>

definition uninit_array :: "nat \<Rightarrow> cell list" where
  "uninit_array n = replicate n Uninit"

definition aggregate_init :: "nat \<Rightarrow> int list \<Rightarrow> cell list" where
  "aggregate_init n vs = map Init (take n vs @ replicate (n - length vs) 0)"

section \<open>\<^verbatim>\<open>ubsan_example.cpp\<close>\<close>

definition ubsan_main :: "(machine, int) state" where
  "ubsan_main = do {
     print [OStr ''UndefinedBehaviorSanitizer Example: Undefined Behavior\<newline>''];
     print [OStr ''======================================================\<newline>\<newline>''];
     print [OStr ''1. Signed integer overflow:\<newline>''];
     let x = INT_MAX;
     print [OStr ''   x = '', OInt x, OEndl];
     x \<leftarrow> int_incr x;
     print [OStr ''   x++ = '', OInt x, OStr '' (undefined behavior)\<newline>\<newline>''];
     print [OStr ''2. Division by zero:\<newline>''];
     let a = (10 :: int);
     let b = (0 :: int);
     print [OStr ''   (Commented out to avoid crash)\<newline>\<newline>''];
     print [OStr ''3. Shift out of bounds:\<newline>''];
     let value = 1;
     let shift = 100;
     shifted \<leftarrow> shift_left value shift;
     print [OStr ''   1 << 100 = '', OInt shifted, OStr '' (undefined behavior)\<newline>\<newline>''];
     print [OStr ''4. Array index out of bounds:\<newline>''];
     let arr = aggregate_init 5 [1, 2, 3, 4, 5];
     let index = 10;
     val \<leftarrow> array_read ''arr'' arr index;
     print [OStr ''   arr[10] = '', OInt val, OStr '' (undefined behavior)\<newline>\<newline>''];
     print [OStr ''5. Null pointer dereference:\<newline>''];
     let ptr = Null;
     print [OStr ''   (Commented out to avoid crash)\<newline>''];
     State_Monad.return 0
   }"

section \<open>\<^verbatim>\<open>asan_example.cpp\<close>\<close>

definition asan_main :: "(machine, int) state" where
  "asan_main = do {
     print [OStr ''AddressSanitizer Example: Buffer Overflow\<newline>''];
     print [OStr ''==========================================\<newline>\<newline>''];
     let arr = aggregate_init 5 [1, 2, 3, 4, 5];
     print [OStr ''Writing to arr[10] (out of bounds)...\<newline>''];
     arr \<leftarrow> array_write ''arr'' arr 10 99;
     v \<leftarrow> array_read ''arr'' arr 10;
     print [OStr ''Value at arr[10]: '', OInt v, OEndl];
     print [OStr ''\<newline>Use after free example:\<newline>''];
     ptr \<leftarrow> new_int 42;
     v \<leftarrow> ptr_read ptr;
     print [OStr ''Allocated: '', OInt v, OEndl];
     delete_ptr ptr;
     v \<leftarrow> ptr_read ptr;
     print [OStr ''After delete, trying to access: '', OInt v, OEndl];
     State_Monad.return 0
   }"

section \<open>\<^verbatim>\<open>msan_example.cpp\<close>\<close>

definition msan_main :: "(machine, int) state" where
  "msan_main = do {
     print [OStr ''MemorySanitizer Example: Uninitialized Memory\<newline>''];
     print [OStr ''==============================================\<newline>\<newline>''];
     let x = Uninit;
     print [OStr ''Reading uninitialized variable x...\<newline>''];
     c \<leftarrow> var_read ''x'' x;
     (if c > 0
      then do { v \<leftarrow> var_read ''x'' x; print [OStr ''x is positive: '', OInt v, OEndl] }
      else do { v \<leftarrow> var_read ''x'' x; print [OStr ''x is not positive: '', OInt v, OEndl] });
     let arr = uninit_array 5;
     print [OStr ''\<newline>Reading uninitialized array element...\<newline>''];
     v \<leftarrow> array_read ''arr'' arr 0;
     print [OStr ''arr[0] = '', OInt v, OEndl];
     let arr2 = aggregate_init 5 [1, 2];
     print [OStr ''\<newline>Reading partially initialized array...\<newline>''];
     v \<leftarrow> array_read ''arr2'' arr2 0;
     print [OStr ''arr2[0] = '', OInt v, OStr '' (OK)\<newline>''];
     v \<leftarrow> array_read ''arr2'' arr2 2;
     print [OStr ''arr2[2] = '', OInt v, OStr '' (MSan will catch this!)\<newline>''];
     State_Monad.return 0
   }"

section \<open>\<^verbatim>\<open>semgrep_example.cpp\<close>\<close>

text \<open>
  The program has one global, \<^verbatim>\<open>global_counter\<close>. Of its ten routines the ones that touch
  only the counter, pointers and the heap are embedded; \<^verbatim>\<open>main\<close> calls none of them.
\<close>

record semgrep_state = machine +
  global_counter :: int

definition semgrep_initial :: "(nat \<Rightarrow> 32 word) \<Rightarrow> semgrep_state" where
  "semgrep_initial g =
     \<lparr>out = [], trace = [], heap = [], garbage = g, used = 0, global_counter = 0\<rparr>"

definition semgrep_weak_crypto :: "(semgrep_state, unit) state" where
  "semgrep_weak_crypto = State_Monad.return ()"

definition semgrep_race_condition :: "(semgrep_state, unit) state" where
  "semgrep_race_condition = do {
     s \<leftarrow> State_Monad.get;
     v \<leftarrow> int_incr (global_counter s);
     State_Monad.update (\<lambda>s. s\<lparr>global_counter := v\<rparr>)
   }"

definition semgrep_null_pointer :: "(semgrep_state, unit) state" where
  "semgrep_null_pointer = do {
     let ptr = Null;
     (if ptr \<noteq> Null then ptr_write ptr 42 else State_Monad.return ())
   }"

definition semgrep_use_after_free :: "(semgrep_state, unit) state" where
  "semgrep_use_after_free = do {
     ptr \<leftarrow> new_int 42;
     delete_ptr ptr
   }"

definition semgrep_main :: "(semgrep_state, int) state" where
  "semgrep_main = do {
     print [OStr ''Semgrep Example: Security and Bug Detection\<newline>''];
     print [OStr ''===========================================\<newline>\<newline>''];
     print [OStr ''This file contains code patterns that Semgrep can detect.\<newline>''];
     print [OStr ''Run 'cpx semgrep' to scan for issues.\<newline>\<newline>''];
     print [OStr ''Common Semgrep detections:\<newline>''];
     print [OStr ''- Command injection vulnerabilities\<newline>''];
     print [OStr ''- Buffer overflows\<newline>''];
     print [OStr ''- Dangerous function usage (strcpy, gets, etc.)\<newline>''];
     print [OStr ''- Hardcoded secrets and credentials\<newline>''];
     print [OStr ''- SQL injection patterns\<newline>''];
     print [OStr ''- Weak cryptography\<newline>''];
     print [OStr ''- Race conditions\<newline>''];
     print [OStr ''- Null pointer dereferences\<newline>''];
     print [OStr ''- Memory leaks\<newline>''];
     print [OStr ''- Use after free\<newline>''];
     State_Monad.return 0
   }"

section \<open>\<^verbatim>\<open>tsan_example.cpp\<close>\<close>

record tsan_state = machine +
  counter :: int

definition tsan_initial :: "(nat \<Rightarrow> 32 word) \<Rightarrow> tsan_state" where
  "tsan_initial g = \<lparr>out = [], trace = [], heap = [], garbage = g, used = 0, counter = 0\<rparr>"

subsection \<open>The routine \<^verbatim>\<open>increment\<close>, run on its own\<close>

text \<open>\<^verbatim>\<open>counter++\<close> reads the global, increments the value read and writes the result back.\<close>

definition counter_incr :: "(tsan_state, unit) state" where
  "counter_incr = do {
     s \<leftarrow> State_Monad.get;
     v \<leftarrow> int_incr (counter s);
     State_Monad.update (\<lambda>s. s\<lparr>counter := v\<rparr>)
   }"

text \<open>
  \<^verbatim>\<open>for (int i = 0; i < 100000; ++i) counter++;\<close> The loop variable stays below 100000, so
  \<^verbatim>\<open>++i\<close> is always defined and is not traced.
\<close>

function increment_loop :: "int \<Rightarrow> tsan_state \<Rightarrow> tsan_state" where
  "increment_loop i s =
     (if i < 100000 then increment_loop (i + 1) (snd (run_state counter_incr s)) else s)"
  by pat_completeness auto
termination
  by (relation "measure (\<lambda>(i, s). nat (100000 - i))") auto

declare increment_loop.simps [simp del]

definition increment :: "(tsan_state, unit) state" where
  "increment = State (\<lambda>s. ((), increment_loop 0 s))"

subsection \<open>Two threads running \<^verbatim>\<open>increment\<close>\<close>

text \<open>
  \<^verbatim>\<open>counter\<close> is a plain \<^verbatim>\<open>int\<close>, so one \<^verbatim>\<open>counter++\<close> of a thread is two accesses to the
  shared location: a load into a thread-local register and, later, a store of the
  incremented register. Between the two the other thread may run. A thread is its loop
  variable, the access it is at, and its register; everything thread-local that happens
  between two shared accesses (the loop test, \<^verbatim>\<open>++i\<close>, the addition) is part of the step
  that ends with the next shared access. A thread whose loop has ended takes no more steps.
  An execution is a schedule: the list of thread identifiers in the order their steps are
  taken.
\<close>

datatype tid = T1 | T2

datatype phase = AtLoad | AtStore

record worker =
  w_i :: int
  w_phase :: phase
  w_reg :: int

definition worker_start :: worker where
  "worker_start = \<lparr>w_i = 0, w_phase = AtLoad, w_reg = 0\<rparr>"

definition finished :: "worker \<Rightarrow> bool" where
  "finished w = (\<not> w_i w < 100000)"

definition worker_step :: "worker \<Rightarrow> (tsan_state, worker) state" where
  "worker_step w =
     (if \<not> w_i w < 100000 then State_Monad.return w
      else (case w_phase w of
              AtLoad \<Rightarrow> do {
                s \<leftarrow> State_Monad.get;
                State_Monad.return (w\<lparr>w_reg := counter s, w_phase := AtStore\<rparr>)
              }
            | AtStore \<Rightarrow> do {
                v \<leftarrow> int_incr (w_reg w);
                State_Monad.update (\<lambda>s. s\<lparr>counter := v\<rparr>);
                State_Monad.return (w\<lparr>w_i := w_i w + 1, w_phase := AtLoad\<rparr>)
              }))"

fun run_threads :: "tid list \<Rightarrow> worker \<times> worker \<Rightarrow> (tsan_state, worker \<times> worker) state" where
  "run_threads [] ws = State_Monad.return ws"
| "run_threads (T1 # sched) (a, b) = do { a' \<leftarrow> worker_step a; run_threads sched (a', b) }"
| "run_threads (T2 # sched) (a, b) = do { b' \<leftarrow> worker_step b; run_threads sched (a, b') }"

text \<open>
  The same two threads when \<^verbatim>\<open>counter++\<close> is atomic: the load and the store of one
  increment are one step, with no step of the other thread between them.
\<close>

definition worker_step_atomic :: "worker \<Rightarrow> (tsan_state, worker) state" where
  "worker_step_atomic w = do { w' \<leftarrow> worker_step w; worker_step w' }"

fun run_threads_atomic ::
  "tid list \<Rightarrow> worker \<times> worker \<Rightarrow> (tsan_state, worker \<times> worker) state" where
  "run_threads_atomic [] ws = State_Monad.return ws"
| "run_threads_atomic (T1 # sched) (a, b) =
     do { a' \<leftarrow> worker_step_atomic a; run_threads_atomic sched (a', b) }"
| "run_threads_atomic (T2 # sched) (a, b) =
     do { b' \<leftarrow> worker_step_atomic b; run_threads_atomic sched (a, b') }"

subsection \<open>\<^verbatim>\<open>main\<close>\<close>

text \<open>
  \<^verbatim>\<open>main\<close> starts the two threads and joins both. Under a schedule that does not bring both
  threads to the end of the loop the joins have not returned: the result is \<open>None\<close>.
\<close>

definition tsan_main :: "tid list \<Rightarrow> tsan_state \<Rightarrow> (int \<times> tsan_state) option" where
  "tsan_main sched s0 =
     (let (u, s1) = run_state (do {
            print [OStr ''ThreadSanitizer Example: Data Race\<newline>''];
            print [OStr ''==================================\<newline>\<newline>''];
            print [OStr ''Starting two threads that increment a shared counter...\<newline>''];
            s \<leftarrow> State_Monad.get;
            print [OStr ''Initial counter: '', OInt (counter s), OEndl]
          }) s0;
          ((t1, t2), s2) = run_state (run_threads sched (worker_start, worker_start)) s1
      in if finished t1 \<and> finished t2
         then Some (run_state (do {
            s \<leftarrow> State_Monad.get;
            print [OStr ''Final counter: '', OInt (counter s), OEndl];
            print [OStr ''Expected: 200000, but may be less due to race condition\<newline>''];
            print [OStr ''TSan will report the data race!\<newline>''];
            State_Monad.return 0
          }) s2)
         else None)"

subsection \<open>Schedules and invariants used in the proofs\<close>

text \<open>
  Three particular schedules: thread 1 runs to its end and then thread 2 does; thread 1
  loads, thread 2 runs to its end, and thread 1 stores its stale register and goes on to
  its end; and, for atomic increments, thread 1 to its end and then thread 2.
\<close>

definition serial_schedule :: "tid list" where
  "serial_schedule = replicate 200000 T1 @ replicate 200000 T2"

definition lost_update_schedule :: "tid list" where
  "lost_update_schedule = T1 # replicate 200000 T2 @ T1 # replicate 199998 T1"

definition atomic_serial_schedule :: "tid list" where
  "atomic_serial_schedule = replicate 100000 T1 @ replicate 100000 T2"

text \<open>
  What every interleaving keeps true: the counter never exceeds the number of increments
  completed so far, it is positive once one has completed, and a register waiting to be
  stored holds a value the counter had.
\<close>

definition race_inv :: "worker \<Rightarrow> worker \<Rightarrow> tsan_state \<Rightarrow> bool" where
  "race_inv a b s \<longleftrightarrow>
     0 \<le> w_i a \<and> w_i a \<le> 100000 \<and> 0 \<le> w_i b \<and> w_i b \<le> 100000 \<and>
     0 \<le> counter s \<and> counter s \<le> w_i a + w_i b \<and>
     (0 < w_i a + w_i b \<longrightarrow> 0 < counter s) \<and>
     (w_phase a = AtStore \<longrightarrow> 0 \<le> w_reg a \<and> w_reg a \<le> w_i a + w_i b) \<and>
     (w_phase b = AtStore \<longrightarrow> 0 \<le> w_reg b \<and> w_reg b \<le> w_i a + w_i b)"

text \<open>With atomic increments the counter is the number of increments completed.\<close>

definition atomic_inv :: "worker \<Rightarrow> worker \<Rightarrow> tsan_state \<Rightarrow> bool" where
  "atomic_inv a b s \<longleftrightarrow>
     w_phase a = AtLoad \<and> w_phase b = AtLoad \<and>
     0 \<le> w_i a \<and> w_i a \<le> 100000 \<and> 0 \<le> w_i b \<and> w_i b \<le> 100000 \<and>
     counter s = w_i a + w_i b"

section \<open>Properties of the sequential programs\<close>

lemmas prim_defs =
  print_def report_def indeterminate_def int_incr_def shift_left_def array_read_def
  array_write_def var_read_def new_int_def delete_ptr_def ptr_read_def ptr_write_def
  State_Monad.update_def aggregate_init_def uninit_array_def

text \<open>
  C2. Every execution of \<^verbatim>\<open>main\<close> of \<^verbatim>\<open>ubsan_example.cpp\<close> performs exactly three
  operations on its variables, in this order, and each is undefined: the increment of an
  \<^verbatim>\<open>int\<close> holding \<^verbatim>\<open>INT_MAX\<close> (signed overflow), the left shift of 1 by 100 (a shift
  amount of at least the width), and the read of index 10 of the five-element array. No
  other finding is recorded.
\<close>

theorem ubsan_main_three_undefined_operations:
  "trace (snd (run_state ubsan_main (initial g))) =
     [(IntIncrement INT_MAX, Some SignedOverflow),
      (ShiftLeft 1 100, Some ShiftOutOfBounds),
      (ArrayRead ''arr'' 10, Some IndexOutOfBounds)] \<and>
   findings (trace (snd (run_state ubsan_main (initial g)))) =
     [SignedOverflow, ShiftOutOfBounds, IndexOutOfBounds] \<and>
   length (aggregate_init 5 [1, 2, 3, 4, 5]) = 5 \<and> INT_BITS \<le> 100"
  by (simp add: ubsan_main_def initial_def prim_defs INT_BITS_def Let_def findings_def)

text \<open>
  C3. No execution of \<^verbatim>\<open>main\<close> of \<^verbatim>\<open>ubsan_example.cpp\<close> performs a division or
  dereferences a pointer: the zero divisor and the null pointer are declared, and their
  uses are commented out in the source.
\<close>

theorem ubsan_main_no_division_no_dereference:
  "filter (\<lambda>e. is_division (fst e) \<or> is_pointer_deref (fst e))
     (trace (snd (run_state ubsan_main (initial g)))) = []"
  by (simp add: ubsan_main_def initial_def prim_defs INT_BITS_def Let_def)

text \<open>
  C4. Every execution of \<^verbatim>\<open>main\<close> of \<^verbatim>\<open>asan_example.cpp\<close> writes index 10 of the
  five-element array (out of bounds), then reads the same index (out of bounds), then
  allocates a heap \<^verbatim>\<open>int\<close>, reads it, deletes it and reads it again through the dangling
  pointer (use after free). At least two findings are recorded, the out-of-bounds write
  and the use after free among them.
\<close>

theorem asan_main_overflow_then_use_after_free:
  "trace (snd (run_state asan_main (initial g))) =
     [(ArrayWrite ''arr'' 10, Some IndexOutOfBounds),
      (ArrayRead ''arr'' 10, Some IndexOutOfBounds),
      (HeapNew (Addr 0), None),
      (PtrRead (Addr 0), None),
      (HeapDelete (Addr 0), None),
      (PtrRead (Addr 0), Some UseAfterFree)] \<and>
   2 \<le> length (findings (trace (snd (run_state asan_main (initial g))))) \<and>
   length (aggregate_init 5 [1, 2, 3, 4, 5]) = 5"
  by (simp add: asan_main_def initial_def prim_defs Let_def findings_def)

text \<open>
  C5. Every execution of \<^verbatim>\<open>main\<close> of \<^verbatim>\<open>msan_example.cpp\<close> reads the unwritten scalar
  \<^verbatim>\<open>x\<close> (in the branch condition, and again to print it) and element 0 of the unwritten
  array \<^verbatim>\<open>arr\<close>. The array \<^verbatim>\<open>arr2\<close>, however, is written in full by its initialiser
  \<^verbatim>\<open>{1, 2}\<close>: elements 2 to 4 hold 0, and the reads of elements 0 and 2 are both reads of
  initialised memory.
\<close>

theorem msan_main_reads:
  "trace (snd (run_state msan_main (initial g))) =
     [(VarRead ''x'', Some UninitializedRead),
      (VarRead ''x'', Some UninitializedRead),
      (ArrayRead ''arr'' 0, Some UninitializedRead),
      (ArrayRead ''arr2'' 0, None),
      (ArrayRead ''arr2'' 2, None)] \<and>
   uninit_array 5 = [Uninit, Uninit, Uninit, Uninit, Uninit] \<and>
   aggregate_init 5 [1, 2] = [Init 1, Init 2, Init 0, Init 0, Init 0]"
  by (simp add: msan_main_def initial_def prim_defs Let_def numeral_eq_Suc)

text \<open>
  C6. \<^verbatim>\<open>semgrep_weak_crypto\<close> does nothing: from every state it returns with the state
  unchanged, the global counter, the heap, the trace and the output included.
\<close>

theorem semgrep_weak_crypto_noop:
  "run_state semgrep_weak_crypto s = ((), s)"
  by (simp add: semgrep_weak_crypto_def)

text \<open>
  C10. \<^verbatim>\<open>semgrep_null_pointer\<close> never dereferences: its pointer is null, the guarded
  write is not reached, and the routine returns with the state unchanged (no operation is
  added to the trace).
\<close>

theorem semgrep_null_pointer_noop:
  "run_state semgrep_null_pointer s = ((), s)"
  by (simp add: semgrep_null_pointer_def)

text \<open>By contrast \<^verbatim>\<open>semgrep_race_condition\<close> does change the state.\<close>

lemma semgrep_race_condition_counts:
  "global_counter s \<noteq> INT_MAX \<Longrightarrow>
   global_counter (snd (run_state semgrep_race_condition s)) = global_counter s + 1"
  by (simp add: semgrep_race_condition_def int_incr_def report_def State_Monad.update_def)

section \<open>Properties of \<^verbatim>\<open>increment\<close> run on its own\<close>

lemma counter_incr_defined:
  "counter s \<noteq> INT_MAX \<Longrightarrow>
   run_state counter_incr s =
     ((), s\<lparr>trace := trace s @ [(IntIncrement (counter s), None)], counter := counter s + 1\<rparr>)"
  by (simp add: counter_incr_def int_incr_def report_def State_Monad.update_def)

lemma upto_first: "i < 100000 \<Longrightarrow> [c .. c + (100000 - i) - 1] =
                   c # [c + 1 .. c + (100000 - i) - 1]" for c :: int
  by (subst upto_rec1) simp_all

lemma increment_loop_defined:
  "i \<le> 100000 \<Longrightarrow> counter s + (100000 - i) \<le> INT_MAX \<Longrightarrow>
   increment_loop i s =
     s\<lparr>trace := trace s @ map (\<lambda>v. (IntIncrement v, None)) [counter s .. counter s + (100000 - i) - 1],
       counter := counter s + (100000 - i)\<rparr>"
proof (induction i s rule: increment_loop.induct)
  case (1 i s)
  show ?case
  proof (cases "i < 100000")
    case True
    define s1 where "s1 = s\<lparr>trace := trace s @ [(IntIncrement (counter s), None)], counter := counter s + 1\<rparr>"
    from True "1.prems" have ne: "counter s \<noteq> INT_MAX" by simp
    have step: "snd (run_state counter_incr s) = s1"
      using counter_incr_defined [OF ne] by (simp add: s1_def)
    have c1: "counter s1 = counter s + 1" and t1: "trace s1 = trace s @ [(IntIncrement (counter s), None)]"
      by (simp_all add: s1_def)
    have p1: "i + 1 \<le> 100000" using True by simp
    have p2: "counter s1 + (100000 - (i + 1)) \<le> INT_MAX" using "1.prems" c1 by simp
    have ih: "increment_loop (i + 1) s1 =
          s1\<lparr>trace := trace s1 @ map (\<lambda>v. (IntIncrement v, None))
                   [counter s1 .. counter s1 + (100000 - (i + 1)) - 1],
               counter := counter s1 + (100000 - (i + 1))\<rparr>"
      using "1.IH" [OF True, unfolded step, OF p1 p2] .
    have e1: "counter s + 1 + (100000 - (i + 1)) = counter s + (100000 - i)"
      by simp
    have "increment_loop i s = increment_loop (i + 1) s1"
      using True step by (subst increment_loop.simps) simp
    also have "\<dots> = s1\<lparr>trace := trace s @ map (\<lambda>v. (IntIncrement v, None)) [counter s .. counter s + (100000 - i) - 1],
       counter := counter s + (100000 - i)\<rparr>"
      by (simp only: ih e1 t1 c1 upto_first [OF True, of "counter s"] append_assoc list.map append.simps)
    also have "\<dots> = s\<lparr>trace := trace s @ map (\<lambda>v. (IntIncrement v, None)) [counter s .. counter s + (100000 - i) - 1],
       counter := counter s + (100000 - i)\<rparr>"
      by (simp add: s1_def)
    finally show ?thesis .
  next
    case False
    with "1.prems" have i: "i = 100000" by simp
    have "increment_loop i s = s" using i by (subst increment_loop.simps) simp
    moreover have "s\<lparr>trace := trace s @ map (\<lambda>v. (IntIncrement v, None)) [counter s .. counter s + (100000 - i) - 1],
       counter := counter s + (100000 - i)\<rparr> = s" using i by simp
    ultimately show ?thesis by (rule trans [OF _ sym])
  qed
qed

lemma increment_loop_counter:
  "i \<le> 100000 \<Longrightarrow> counter s + (100000 - i) \<le> INT_MAX \<Longrightarrow>
   counter (increment_loop i s) = counter s + (100000 - i)"
  by (simp add: increment_loop_defined)

lemma increment_counter:
  "counter s \<le> INT_MAX - 100000 \<Longrightarrow>
   counter (snd (run_state increment s)) = counter s + 100000"
  using increment_loop_counter [of 0 s] by (simp add: increment_def)

lemma increment_twice:
  assumes "counter s = 0"
  shows "counter (snd (run_state (do { increment; increment }) s)) = 200000"
proof -
  define s1 where "s1 = snd (run_state increment s)"
  have c1: "counter s1 = 100000"
    unfolding s1_def using assms by (simp add: increment_counter INT_MAX_def)
  have "counter (snd (run_state increment s1)) = 200000"
    using c1 by (simp add: increment_counter INT_MAX_def)
  then show ?thesis by (simp add: s1_def split_beta)
qed

lemma increment_overflow:
  "counter (snd (run_state increment ((tsan_initial (\<lambda>_. 0))\<lparr>counter := INT_MAX\<rparr>))) = 99999"
proof -
  define s0 where "s0 = (tsan_initial (\<lambda>_. 0))\<lparr>counter := INT_MAX\<rparr>"
  define s1 where "s1 = snd (run_state counter_incr s0)"
  have c1: "counter s1 = 0"
    by (simp add: s1_def s0_def counter_incr_def int_incr_def report_def indeterminate_def
        State_Monad.update_def tsan_initial_def)
  have "increment_loop 0 s0 = increment_loop (0 + 1) s1"
    by (subst increment_loop.simps) (simp add: s1_def)
  then have "counter (increment_loop 0 s0) = counter s1 + (100000 - (0 + 1))"
    using c1 by (simp only: increment_loop_counter) (simp add: increment_loop_counter INT_MAX_def)
  then have "counter (increment_loop 0 s0) = 99999" using c1 by simp
  then show ?thesis by (simp add: increment_def s0_def)
qed

lemma increment_overflow_trace:
  "hd (trace (snd (run_state increment ((tsan_initial (\<lambda>_. 0))\<lparr>counter := INT_MAX\<rparr>)))) =
     (IntIncrement INT_MAX, Some SignedOverflow)"
proof -
  define s0 where "s0 = (tsan_initial (\<lambda>_. 0))\<lparr>counter := INT_MAX\<rparr>"
  define s1 where "s1 = snd (run_state counter_incr s0)"
  have c1: "counter s1 = 0" and t1: "trace s1 = [(IntIncrement INT_MAX, Some SignedOverflow)]"
    by (simp_all add: s1_def s0_def counter_incr_def int_incr_def report_def indeterminate_def
        State_Monad.update_def tsan_initial_def)
  have "increment_loop 0 s0 = increment_loop (0 + 1) s1"
    by (subst increment_loop.simps) (simp add: s1_def)
  moreover have "increment_loop (0 + 1) s1 =
      s1\<lparr>trace := trace s1 @ map (\<lambda>v. (IntIncrement v, None))
               [counter s1 .. counter s1 + (100000 - (0 + 1)) - 1],
         counter := counter s1 + (100000 - (0 + 1))\<rparr>"
    using c1 by (intro increment_loop_defined) (simp_all add: INT_MAX_def)
  ultimately have "trace (increment_loop 0 s0) =
      trace s1 @ map (\<lambda>v. (IntIncrement v, None)) [counter s1 .. counter s1 + (100000 - (0 + 1)) - 1]"
    by simp
  then have "hd (trace (increment_loop 0 s0)) = (IntIncrement INT_MAX, Some SignedOverflow)"
    by (simp add: t1)
  then show ?thesis by (simp add: increment_def s0_def)
qed

text \<open>
  C7. From every counter value \<open>c\<close> with \<open>c \<le> INT_MAX - 100000\<close>, one call of
  \<^verbatim>\<open>increment\<close> returns after exactly 100000 increments of the counter, each of them
  defined, with the counter at \<open>c + 100000\<close> and nothing else changed but the trace.
\<close>

theorem increment_adds_100000:
  "counter s \<le> INT_MAX - 100000 \<Longrightarrow>
   run_state increment s =
     ((), s\<lparr>trace := trace s @ map (\<lambda>v. (IntIncrement v, None)) [counter s .. counter s + 99999],
           counter := counter s + 100000\<rparr>)"
proof -
  assume a: "counter s \<le> INT_MAX - 100000"
  have "increment_loop 0 s =
     s\<lparr>trace := trace s @ map (\<lambda>v. (IntIncrement v, None)) [counter s .. counter s + (100000 - 0) - 1],
       counter := counter s + (100000 - 0)\<rparr>"
    using a by (intro increment_loop_defined) simp_all
  moreover have "counter s + (100000 - 0) - 1 = counter s + 99999" by simp
  moreover have "counter s + (100000 - 0) = counter s + 100000" by simp
  ultimately have "increment_loop 0 s =
     s\<lparr>trace := trace s @ map (\<lambda>v. (IntIncrement v, None)) [counter s .. counter s + 99999],
       counter := counter s + 100000\<rparr>"
    by (simp only:)
  then show ?thesis by (simp only: increment_def state.sel)
qed

text \<open>
  At the counter value 0 the hypothesis holds and the call ends with the counter at 100000.
\<close>

theorem increment_adds_100000_witness:
  "counter (tsan_initial (\<lambda>_. 0)) \<le> INT_MAX - 100000 \<and>
   counter (snd (run_state increment (tsan_initial (\<lambda>_. 0)))) = 100000"
proof -
  define s0 where "s0 = tsan_initial (\<lambda>_. 0)"
  have c0: "counter s0 = 0" by (simp add: s0_def tsan_initial_def)
  then have h: "counter s0 \<le> INT_MAX - 100000" by (simp add: INT_MAX_def)
  have "counter (snd (run_state increment s0)) = counter s0 + 100000"
    by (simp add: increment_adds_100000 [OF h])
  then show ?thesis using h c0 by (simp add: s0_def)
qed

text \<open>
  Without the bound the statement fails: from \<^verbatim>\<open>INT_MAX\<close> the first increment is a
  signed overflow, and (with the environment that yields 0 for it) the call ends with the
  counter at 99999, which is not \<^verbatim>\<open>INT_MAX\<close> + 100000; no \<^verbatim>\<open>int\<close> is.
\<close>

theorem increment_at_INT_MAX_counterexample:
  "hd (trace (snd (run_state increment ((tsan_initial (\<lambda>_. 0))\<lparr>counter := INT_MAX\<rparr>)))) =
     (IntIncrement INT_MAX, Some SignedOverflow) \<and>
   counter (snd (run_state increment ((tsan_initial (\<lambda>_. 0))\<lparr>counter := INT_MAX\<rparr>))) \<noteq>
   counter ((tsan_initial (\<lambda>_. 0))\<lparr>counter := INT_MAX\<rparr>) + 100000"
  unfolding increment_overflow increment_overflow_trace by (simp add: INT_MAX_def)

section \<open>Properties of the two threads\<close>

subsection \<open>Every interleaving\<close>

lemma worker_step_load:
  "w_i w < 100000 \<Longrightarrow> w_phase w = AtLoad \<Longrightarrow>
   run_state (worker_step w) s = (w\<lparr>w_reg := counter s, w_phase := AtStore\<rparr>, s)"
  by (simp add: worker_step_def)

lemma worker_step_store:
  "w_i w < 100000 \<Longrightarrow> w_phase w = AtStore \<Longrightarrow> w_reg w \<noteq> INT_MAX \<Longrightarrow>
   run_state (worker_step w) s =
     (w\<lparr>w_i := w_i w + 1, w_phase := AtLoad\<rparr>,
      s\<lparr>trace := trace s @ [(IntIncrement (w_reg w), None)], counter := w_reg w + 1\<rparr>)"
  by (simp add: worker_step_def int_incr_def report_def State_Monad.update_def)

lemma worker_step_done:
  "\<not> w_i w < 100000 \<Longrightarrow> run_state (worker_step w) s = (w, s)"
  by (simp add: worker_step_def)

lemma worker_step_out: "out (snd (run_state (worker_step w) s)) = out s"
  by (simp add: worker_step_def int_incr_def report_def indeterminate_def State_Monad.update_def
      split: phase.split)

lemma race_inv_sym: "race_inv a b s \<Longrightarrow> race_inv b a s"
  unfolding race_inv_def by linarith

lemma race_inv_step:
  assumes inv: "race_inv a b s"
  shows "race_inv (fst (run_state (worker_step a) s)) b (snd (run_state (worker_step a) s))"
proof (cases "w_i a < 100000")
  case False
  then show ?thesis using inv by (simp add: worker_step_done)
next
  case True
  show ?thesis
  proof (cases "w_phase a")
    case AtLoad
    then show ?thesis
      using inv True by (simp add: worker_step_load) (auto simp: race_inv_def)
  next
    case AtStore
    with inv have "w_reg a \<le> 200000" by (auto simp: race_inv_def)
    then have "w_reg a \<noteq> INT_MAX" by (simp add: INT_MAX_def)
    then show ?thesis
      using inv True AtStore by (simp add: worker_step_store) (auto simp: race_inv_def)
  qed
qed

lemma race_inv_run:
  "race_inv a b s \<Longrightarrow>
   race_inv (fst (fst (run_state (run_threads sched (a, b)) s)))
            (snd (fst (run_state (run_threads sched (a, b)) s)))
            (snd (run_state (run_threads sched (a, b)) s))"
proof (induction sched arbitrary: a b s)
  case Nil
  then show ?case by simp
next
  case (Cons t sched)
  show ?case
  proof (cases t)
    case T1
    have "race_inv (fst (run_state (worker_step a) s)) b (snd (run_state (worker_step a) s))"
      using Cons.prems by (rule race_inv_step)
    from Cons.IH [OF this] show ?thesis
      unfolding T1 by (simp only: run_threads.simps run_state_bind split_beta)
  next
    case T2
    have "race_inv (fst (run_state (worker_step b) s)) a (snd (run_state (worker_step b) s))"
      by (rule race_inv_step [OF race_inv_sym [OF Cons.prems]])
    then have "race_inv a (fst (run_state (worker_step b) s)) (snd (run_state (worker_step b) s))"
      by (rule race_inv_sym)
    from Cons.IH [OF this] show ?thesis
      unfolding T2 by (simp only: run_threads.simps run_state_bind split_beta)
  qed
qed

lemma run_threads_out: "out (snd (run_state (run_threads sched (a, b)) s)) = out s"
proof (induction sched arbitrary: a b s)
  case Nil
  then show ?case by simp
next
  case (Cons t sched)
  show ?case
    by (cases t) (simp_all only: run_threads.simps run_state_bind split_beta Cons.IH worker_step_out)
qed

lemma race_inv_start: "counter s = 0 \<Longrightarrow> race_inv worker_start worker_start s"
  by (simp add: race_inv_def worker_start_def)

lemma race_inv_finished:
  "race_inv a b s \<Longrightarrow> finished a \<Longrightarrow> finished b \<Longrightarrow> 0 < counter s \<and> counter s \<le> 200000"
  by (auto simp: race_inv_def finished_def)

subsection \<open>Particular interleavings\<close>

lemma solo_T1:
  "w_phase a = AtLoad \<Longrightarrow> w_i a + int m \<le> 100000 \<Longrightarrow> counter s + int m \<le> INT_MAX \<Longrightarrow>
   \<exists>a' s'. run_state (run_threads (replicate (2 * m) T1 @ rest) (a, b)) s =
             run_state (run_threads rest (a', b)) s' \<and>
           w_i a' = w_i a + int m \<and> w_phase a' = AtLoad \<and> counter s' = counter s + int m"
proof (induction m arbitrary: a s)
  case 0
  then show ?case by (intro exI [of _ a] exI [of _ s]) simp
next
  case (Suc m)
  define a1 where "a1 = a\<lparr>w_reg := counter s, w_phase := AtStore\<rparr>"
  define a2 where "a2 = a1\<lparr>w_i := w_i a1 + 1, w_phase := AtLoad\<rparr>"
  define s2 where "s2 = s\<lparr>trace := trace s @ [(IntIncrement (w_reg a1), None)], counter := w_reg a1 + 1\<rparr>"
  have lt: "w_i a < 100000" using Suc.prems by simp
  have st1: "run_state (worker_step a) s = (a1, s)"
    using lt Suc.prems(1) by (simp add: worker_step_load a1_def)
  have "w_reg a1 \<noteq> INT_MAX" using Suc.prems(3) by (simp add: a1_def)
  then have st2: "run_state (worker_step a1) s = (a2, s2)"
    using lt by (simp add: worker_step_store a1_def a2_def s2_def)
  have two: "run_state (run_threads (replicate (2 * Suc m) T1 @ rest) (a, b)) s =
             run_state (run_threads (replicate (2 * m) T1 @ rest) (a2, b)) s2"
    by (simp add: st1 st2)
  have p1: "w_phase a2 = AtLoad" by (simp add: a2_def)
  have p2: "w_i a2 + int m \<le> 100000" using Suc.prems(2) by (simp add: a2_def a1_def)
  have p3: "counter s2 + int m \<le> INT_MAX" using Suc.prems(3) by (simp add: s2_def a1_def)
  from Suc.IH [OF p1 p2 p3] obtain a' s' where
    r: "run_state (run_threads (replicate (2 * m) T1 @ rest) (a2, b)) s2 =
          run_state (run_threads rest (a', b)) s'"
    and i: "w_i a' = w_i a2 + int m" and ph: "w_phase a' = AtLoad"
    and c: "counter s' = counter s2 + int m"
    by blast
  have "w_i a' = w_i a + int (Suc m)" using i by (simp add: a2_def a1_def)
  moreover have "counter s' = counter s + int (Suc m)" using c by (simp add: s2_def a1_def)
  ultimately show ?case using two r ph by metis
qed

lemma solo_T2:
  "w_phase b = AtLoad \<Longrightarrow> w_i b + int m \<le> 100000 \<Longrightarrow> counter s + int m \<le> INT_MAX \<Longrightarrow>
   \<exists>b' s'. run_state (run_threads (replicate (2 * m) T2 @ rest) (a, b)) s =
             run_state (run_threads rest (a, b')) s' \<and>
           w_i b' = w_i b + int m \<and> w_phase b' = AtLoad \<and> counter s' = counter s + int m"
proof (induction m arbitrary: b s)
  case 0
  then show ?case by (intro exI [of _ b] exI [of _ s]) simp
next
  case (Suc m)
  define b1 where "b1 = b\<lparr>w_reg := counter s, w_phase := AtStore\<rparr>"
  define b2 where "b2 = b1\<lparr>w_i := w_i b1 + 1, w_phase := AtLoad\<rparr>"
  define s2 where "s2 = s\<lparr>trace := trace s @ [(IntIncrement (w_reg b1), None)], counter := w_reg b1 + 1\<rparr>"
  have lt: "w_i b < 100000" using Suc.prems by simp
  have st1: "run_state (worker_step b) s = (b1, s)"
    using lt Suc.prems(1) by (simp add: worker_step_load b1_def)
  have "w_reg b1 \<noteq> INT_MAX" using Suc.prems(3) by (simp add: b1_def)
  then have st2: "run_state (worker_step b1) s = (b2, s2)"
    using lt by (simp add: worker_step_store b1_def b2_def s2_def)
  have two: "run_state (run_threads (replicate (2 * Suc m) T2 @ rest) (a, b)) s =
             run_state (run_threads (replicate (2 * m) T2 @ rest) (a, b2)) s2"
    by (simp add: st1 st2)
  have p1: "w_phase b2 = AtLoad" by (simp add: b2_def)
  have p2: "w_i b2 + int m \<le> 100000" using Suc.prems(2) by (simp add: b2_def b1_def)
  have p3: "counter s2 + int m \<le> INT_MAX" using Suc.prems(3) by (simp add: s2_def b1_def)
  from Suc.IH [OF p1 p2 p3] obtain b' s' where
    r: "run_state (run_threads (replicate (2 * m) T2 @ rest) (a, b2)) s2 =
          run_state (run_threads rest (a, b')) s'"
    and i: "w_i b' = w_i b2 + int m" and ph: "w_phase b' = AtLoad"
    and c: "counter s' = counter s2 + int m"
    by blast
  have "w_i b' = w_i b + int (Suc m)" using i by (simp add: b2_def b1_def)
  moreover have "counter s' = counter s + int (Suc m)" using c by (simp add: s2_def b1_def)
  ultimately show ?case using two r ph by metis
qed

lemma serial_run:
  assumes "counter s = 0"
  shows "\<exists>a b s'. run_state (run_threads serial_schedule (worker_start, worker_start)) s = ((a, b), s') \<and>
           finished a \<and> finished b \<and> counter s' = 200000"
proof -
  have n: "(200000::nat) = 2 * 100000" by simp
  have ph: "w_phase worker_start = AtLoad" and i0: "w_i worker_start = 0"
    by (simp_all add: worker_start_def)
  obtain a s1 where
    r1: "run_state (run_threads (replicate (2 * 100000) T1 @ replicate (2 * 100000) T2 @ []) (worker_start, worker_start)) s =
         run_state (run_threads (replicate (2 * 100000) T2 @ []) (a, worker_start)) s1"
    and ia: "w_i a = w_i worker_start + int 100000" and c1: "counter s1 = counter s + int 100000"
    using solo_T1 [of worker_start 100000 s "replicate (2 * 100000) T2 @ []" worker_start] ph i0 assms
    by (auto simp: INT_MAX_def)
  obtain b s2 where
    r2: "run_state (run_threads (replicate (2 * 100000) T2 @ []) (a, worker_start)) s1 =
         run_state (run_threads [] (a, b)) s2"
    and ib: "w_i b = w_i worker_start + int 100000" and c2: "counter s2 = counter s1 + int 100000"
    using solo_T2 [of worker_start 100000 s1 "[]" a] ph i0 c1 assms
    by (auto simp: INT_MAX_def)
  have "run_state (run_threads serial_schedule (worker_start, worker_start)) s = ((a, b), s2)"
    unfolding serial_schedule_def n using r1 r2 by simp
  moreover have "finished a" "finished b" using ia ib i0 by (simp_all add: finished_def)
  moreover have "counter s2 = 200000" using c1 c2 assms by simp
  ultimately show ?thesis by blast
qed

lemma lost_update_run:
  assumes "counter s = 0"
  shows "\<exists>a b s'. run_state (run_threads lost_update_schedule (worker_start, worker_start)) s = ((a, b), s') \<and>
           finished a \<and> finished b \<and> counter s' = 100000"
proof -
  have n: "(200000::nat) = 2 * 100000" and n': "(199998::nat) = 2 * 99999" by simp_all
  have ph: "w_phase worker_start = AtLoad" and i0: "w_i worker_start = 0"
    by (simp_all add: worker_start_def)
  define a1 where "a1 = worker_start\<lparr>w_reg := counter s, w_phase := AtStore\<rparr>"
  have st1: "run_state (worker_step worker_start) s = (a1, s)"
    using ph i0 by (simp add: worker_step_load a1_def)
  obtain b s1 where
    r1: "run_state (run_threads (replicate (2 * 100000) T2 @ T1 # replicate (2 * 99999) T1 @ []) (a1, worker_start)) s =
         run_state (run_threads (T1 # replicate (2 * 99999) T1 @ []) (a1, b)) s1"
    and ib: "w_i b = w_i worker_start + int 100000" and c1: "counter s1 = counter s + int 100000"
    using solo_T2 [of worker_start 100000 s "T1 # replicate (2 * 99999) T1 @ []" a1] ph i0 assms
    by (auto simp: INT_MAX_def)
  define a2 where "a2 = a1\<lparr>w_i := w_i a1 + 1, w_phase := AtLoad\<rparr>"
  define s2 where "s2 = s1\<lparr>trace := trace s1 @ [(IntIncrement (w_reg a1), None)], counter := w_reg a1 + 1\<rparr>"
  have "w_reg a1 \<noteq> INT_MAX" using assms by (simp add: a1_def INT_MAX_def)
  then have st2: "run_state (worker_step a1) s1 = (a2, s2)"
    using i0 by (simp add: worker_step_store a1_def a2_def s2_def)
  have pa: "w_phase a2 = AtLoad" and ia2: "w_i a2 = 1" and c2: "counter s2 = 1"
    using i0 assms by (simp_all add: a2_def a1_def s2_def)
  obtain a s3 where
    r3: "run_state (run_threads (replicate (2 * 99999) T1 @ []) (a2, b)) s2 =
         run_state (run_threads [] (a, b)) s3"
    and ia: "w_i a = w_i a2 + int 99999" and c3: "counter s3 = counter s2 + int 99999"
    using solo_T1 [of a2 99999 s2 "[]" b] pa ia2 c2
    by (auto simp: INT_MAX_def)
  have "run_state (run_threads lost_update_schedule (worker_start, worker_start)) s = ((a, b), s3)"
    unfolding lost_update_schedule_def n n' using st1 r1 st2 r3 by simp
  moreover have "finished a" "finished b" using ia ia2 ib i0 by (simp_all add: finished_def)
  moreover have "counter s3 = 100000" using c2 c3 by simp
  ultimately show ?thesis by blast
qed

lemma tsan_main_eq:
  "tsan_main sched s0 =
     (let s1 = s0\<lparr>out := out s0 @
                  [OStr ''ThreadSanitizer Example: Data Race\<newline>'',
                   OStr ''==================================\<newline>\<newline>'',
                   OStr ''Starting two threads that increment a shared counter...\<newline>'',
                   OStr ''Initial counter: '', OInt (counter s0), OEndl]\<rparr>;
          r = run_state (run_threads sched (worker_start, worker_start)) s1
      in if finished (fst (fst r)) \<and> finished (snd (fst r))
         then Some (0, (snd r)\<lparr>out := out (snd r) @
                  [OStr ''Final counter: '', OInt (counter (snd r)), OEndl,
                   OStr ''Expected: 200000, but may be less due to race condition\<newline>'',
                   OStr ''TSan will report the data race!\<newline>'']\<rparr>)
         else None)"
  by (simp add: tsan_main_def print_def State_Monad.update_def Let_def split_beta)

lemma tsan_main_complete:
  assumes "tsan_main sched s0 = Some (r, s')" and "counter s0 = 0"
  shows "r = 0 \<and> 0 < counter s' \<and> counter s' \<le> 200000 \<and>
         out s' = out s0 @
                  [OStr ''ThreadSanitizer Example: Data Race\<newline>'',
                   OStr ''==================================\<newline>\<newline>'',
                   OStr ''Starting two threads that increment a shared counter...\<newline>'',
                   OStr ''Initial counter: '', OInt 0, OEndl,
                   OStr ''Final counter: '', OInt (counter s'), OEndl,
                   OStr ''Expected: 200000, but may be less due to race condition\<newline>'',
                   OStr ''TSan will report the data race!\<newline>'']"
proof -
  define s1 where "s1 = s0\<lparr>out := out s0 @
                  [OStr ''ThreadSanitizer Example: Data Race\<newline>'',
                   OStr ''==================================\<newline>\<newline>'',
                   OStr ''Starting two threads that increment a shared counter...\<newline>'',
                   OStr ''Initial counter: '', OInt (counter s0), OEndl]\<rparr>"
  define R where "R = run_state (run_threads sched (worker_start, worker_start)) s1"
  have c1: "counter s1 = 0" using assms(2) by (simp add: s1_def)
  have fin: "finished (fst (fst R)) \<and> finished (snd (fst R))"
    and res: "r = 0"
      "s' = (snd R)\<lparr>out := out (snd R) @
                  [OStr ''Final counter: '', OInt (counter (snd R)), OEndl,
                   OStr ''Expected: 200000, but may be less due to race condition\<newline>'',
                   OStr ''TSan will report the data race!\<newline>'']\<rparr>"
    using assms(1) unfolding tsan_main_eq Let_def s1_def [symmetric] R_def [symmetric]
    by (simp_all split: if_splits)
  have inv: "race_inv (fst (fst R)) (snd (fst R)) (snd R)"
    unfolding R_def by (rule race_inv_run [OF race_inv_start [OF c1]])
  have b: "0 < counter (snd R) \<and> counter (snd R) \<le> 200000"
    using race_inv_finished [OF inv] fin by simp
  have o: "out (snd R) = out s1" unfolding R_def by (rule run_threads_out)
  show ?thesis using res b o assms(2) by (simp add: s1_def)
qed

lemma tsan_main_run:
  assumes "run_state (run_threads sched (worker_start, worker_start))
             (s0\<lparr>out := out s0 @
                  [OStr ''ThreadSanitizer Example: Data Race\<newline>'',
                   OStr ''==================================\<newline>\<newline>'',
                   OStr ''Starting two threads that increment a shared counter...\<newline>'',
                   OStr ''Initial counter: '', OInt (counter s0), OEndl]\<rparr>) = ((a, b), s2)"
    and "finished a" and "finished b"
  shows "\<exists>s'. tsan_main sched s0 = Some (0, s') \<and> counter s' = counter s2"
  unfolding tsan_main_eq Let_def using assms by simp

lemma tsan_main_serial:
  "\<exists>s'. tsan_main serial_schedule (tsan_initial g) = Some (0, s') \<and> counter s' = 200000"
proof -
  define s1 where "s1 = (tsan_initial g)\<lparr>out := out (tsan_initial g) @
                  [OStr ''ThreadSanitizer Example: Data Race\<newline>'',
                   OStr ''==================================\<newline>\<newline>'',
                   OStr ''Starting two threads that increment a shared counter...\<newline>'',
                   OStr ''Initial counter: '', OInt (counter (tsan_initial g)), OEndl]\<rparr>"
  have "counter s1 = 0" by (simp add: s1_def tsan_initial_def)
  from serial_run [OF this] obtain a b s2 where
    "run_state (run_threads serial_schedule (worker_start, worker_start)) s1 = ((a, b), s2)"
    "finished a" "finished b" "counter s2 = 200000" by blast
  with tsan_main_run [of serial_schedule "tsan_initial g" a b s2] show ?thesis
    unfolding s1_def by auto
qed

lemma tsan_main_lost_update:
  "\<exists>s'. tsan_main lost_update_schedule (tsan_initial g) = Some (0, s') \<and> counter s' = 100000"
proof -
  define s1 where "s1 = (tsan_initial g)\<lparr>out := out (tsan_initial g) @
                  [OStr ''ThreadSanitizer Example: Data Race\<newline>'',
                   OStr ''==================================\<newline>\<newline>'',
                   OStr ''Starting two threads that increment a shared counter...\<newline>'',
                   OStr ''Initial counter: '', OInt (counter (tsan_initial g)), OEndl]\<rparr>"
  have "counter s1 = 0" by (simp add: s1_def tsan_initial_def)
  from lost_update_run [OF this] obtain a b s2 where
    "run_state (run_threads lost_update_schedule (worker_start, worker_start)) s1 = ((a, b), s2)"
    "finished a" "finished b" "counter s2 = 100000" by blast
  with tsan_main_run [of lost_update_schedule "tsan_initial g" a b s2] show ?thesis
    unfolding s1_def by auto
qed

lemma tsan_main_serial_completes:
  "\<exists>r s'. tsan_main serial_schedule (tsan_initial g) = Some (r, s')"
  using tsan_main_serial [of g] by blast

lemma tsan_main_lost_update_completes:
  "\<exists>r s'. tsan_main lost_update_schedule (tsan_initial g) = Some (r, s')"
  using tsan_main_lost_update [of g] by blast


subsection \<open>Atomic increments\<close>

lemma atomic_inv_sym: "atomic_inv a b s \<Longrightarrow> atomic_inv b a s"
  unfolding atomic_inv_def by linarith

lemma atomic_inv_step:
  assumes inv: "atomic_inv a b s"
  shows "atomic_inv (fst (run_state (worker_step_atomic a) s)) b
           (snd (run_state (worker_step_atomic a) s))"
proof (cases "w_i a < 100000")
  case False
  then show ?thesis
    using inv by (simp add: worker_step_atomic_def worker_step_done)
next
  case True
  define a1 where "a1 = a\<lparr>w_reg := counter s, w_phase := AtStore\<rparr>"
  have ph: "w_phase a = AtLoad" using inv by (simp add: atomic_inv_def)
  have st1: "run_state (worker_step a) s = (a1, s)"
    using True ph by (simp add: worker_step_load a1_def)
  have "counter s \<le> 200000" using inv by (simp add: atomic_inv_def)
  then have "w_reg a1 \<noteq> INT_MAX" by (simp add: a1_def INT_MAX_def)
  then have st2: "run_state (worker_step a1) s =
      (a1\<lparr>w_i := w_i a1 + 1, w_phase := AtLoad\<rparr>,
       s\<lparr>trace := trace s @ [(IntIncrement (w_reg a1), None)], counter := w_reg a1 + 1\<rparr>)"
    using True by (simp add: worker_step_store a1_def)
  show ?thesis
    using inv True by (simp add: worker_step_atomic_def st1 st2) (simp add: atomic_inv_def a1_def)
qed

lemma atomic_inv_run:
  "atomic_inv a b s \<Longrightarrow>
   atomic_inv (fst (fst (run_state (run_threads_atomic sched (a, b)) s)))
              (snd (fst (run_state (run_threads_atomic sched (a, b)) s)))
              (snd (run_state (run_threads_atomic sched (a, b)) s))"
proof (induction sched arbitrary: a b s)
  case Nil
  then show ?case by simp
next
  case (Cons t sched)
  show ?case
  proof (cases t)
    case T1
    have "atomic_inv (fst (run_state (worker_step_atomic a) s)) b
            (snd (run_state (worker_step_atomic a) s))"
      using Cons.prems by (rule atomic_inv_step)
    from Cons.IH [OF this] show ?thesis
      unfolding T1 by (simp only: run_threads_atomic.simps run_state_bind split_beta)
  next
    case T2
    have "atomic_inv (fst (run_state (worker_step_atomic b) s)) a
            (snd (run_state (worker_step_atomic b) s))"
      by (rule atomic_inv_step [OF atomic_inv_sym [OF Cons.prems]])
    then have "atomic_inv a (fst (run_state (worker_step_atomic b) s))
                 (snd (run_state (worker_step_atomic b) s))"
      by (rule atomic_inv_sym)
    from Cons.IH [OF this] show ?thesis
      unfolding T2 by (simp only: run_threads_atomic.simps run_state_bind split_beta)
  qed
qed

lemma atomic_inv_start: "counter s = 0 \<Longrightarrow> atomic_inv worker_start worker_start s"
  by (simp add: atomic_inv_def worker_start_def)

lemma atomic_inv_finished:
  "atomic_inv a b s \<Longrightarrow> finished a \<Longrightarrow> finished b \<Longrightarrow> counter s = 200000"
  by (simp add: atomic_inv_def finished_def)

lemma run_threads_atomic_plain:
  "run_state (run_threads_atomic sched ws) s =
   run_state (run_threads (concat (map (\<lambda>t. [t, t]) sched)) ws) s"
proof (induction sched arbitrary: ws s)
  case Nil
  then show ?case by simp
next
  case (Cons t sched)
  obtain a b where ws: "ws = (a, b)" by (cases ws)
  show ?case
    unfolding ws by (cases t) (simp_all add: worker_step_atomic_def Cons.IH split_beta)
qed

lemma concat_double_replicate:
  "concat (replicate n [x, x]) = replicate (2 * n) x"
  by (induction n) simp_all

lemma atomic_serial_run:
  assumes "counter s = 0"
  shows "\<exists>a b s'. run_state (run_threads_atomic atomic_serial_schedule (worker_start, worker_start)) s =
           ((a, b), s') \<and> finished a \<and> finished b"
proof -
  have "concat (map (\<lambda>t. [t, t]) atomic_serial_schedule) = serial_schedule"
    by (simp add: atomic_serial_schedule_def serial_schedule_def concat_double_replicate)
  then have "run_state (run_threads_atomic atomic_serial_schedule (worker_start, worker_start)) s =
             run_state (run_threads serial_schedule (worker_start, worker_start)) s"
    by (simp add: run_threads_atomic_plain)
  with serial_run [OF assms] show ?thesis by auto
qed


text \<open>
  C9. Started from the initial counter value 0, two calls of \<^verbatim>\<open>increment\<close> that do not
  interleave leave the counter at 200000; and when each increment is atomic, every
  interleaving in which both threads reach the end of the loop leaves the counter at
  200000.
\<close>

theorem increment_sequentialized_200000:
  "counter (snd (run_state (do { increment; increment }) (tsan_initial g))) = 200000 \<and>
   (\<forall>sched a b s'.
      run_state (run_threads_atomic sched (worker_start, worker_start)) (tsan_initial g) = ((a, b), s') \<and>
      finished a \<and> finished b \<longrightarrow> counter s' = 200000)"
proof (intro conjI allI impI)
  have c0: "counter (tsan_initial g) = 0" by (simp add: tsan_initial_def)
  show "counter (snd (run_state (do { increment; increment }) (tsan_initial g))) = 200000"
    by (rule increment_twice [OF c0])
  fix sched a b s'
  assume h: "run_state (run_threads_atomic sched (worker_start, worker_start)) (tsan_initial g) = ((a, b), s') \<and>
      finished a \<and> finished b"
  have "atomic_inv a b s'"
    using atomic_inv_run [OF atomic_inv_start [OF c0], of sched] h by simp
  then show "counter s' = 200000" using h by (simp add: atomic_inv_finished)
qed

text \<open>
  Under the atomic schedule that runs thread 1 and then thread 2 both threads do reach the
  end of the loop.
\<close>

theorem increment_sequentialized_200000_witness:
  "\<exists>a b s'. run_state (run_threads_atomic atomic_serial_schedule (worker_start, worker_start))
               (tsan_initial (\<lambda>_. 0)) = ((a, b), s') \<and>
            finished a \<and> finished b \<and> counter s' = 200000"
proof -
  have "counter (tsan_initial (\<lambda>_. 0)) = 0" by (simp add: tsan_initial_def)
  from atomic_serial_run [OF this] obtain a b s' where
    h: "run_state (run_threads_atomic atomic_serial_schedule (worker_start, worker_start))
          (tsan_initial (\<lambda>_. 0)) = ((a, b), s') \<and> finished a \<and> finished b"
    by blast
  with increment_sequentialized_200000 [of "\<lambda>_. 0"] have "counter s' = 200000" by blast
  with h show ?thesis by blast
qed


subsection \<open>The value \<^verbatim>\<open>main\<close> prints\<close>

text \<open>
  C1. For every interleaving of the two threads under which \<^verbatim>\<open>main\<close> completes, the
  final counter value, which is the value \<^verbatim>\<open>main\<close> prints after the joins, is positive
  and at most 200000. Some interleaving gives exactly 200000, and some interleaving gives
  another value. An interleaving is a schedule of the threads' loads and stores of the
  counter, each load and each store taken as one step.
\<close>

theorem tsan_main_final_counter:
  "(\<forall>sched r s'. tsan_main sched (tsan_initial g) = Some (r, s') \<longrightarrow>
      0 < counter s' \<and> counter s' \<le> 200000 \<and>
      take 3 (drop 6 (out s')) = [OStr ''Final counter: '', OInt (counter s'), OEndl]) \<and>
   (\<exists>sched r s'. tsan_main sched (tsan_initial g) = Some (r, s') \<and> counter s' = 200000) \<and>
   (\<exists>sched r s'. tsan_main sched (tsan_initial g) = Some (r, s') \<and> counter s' \<noteq> 200000)"
proof (intro conjI allI impI)
  have c0: "counter (tsan_initial g) = 0" and o0: "out (tsan_initial g) = []"
    by (simp_all add: tsan_initial_def)
  fix sched r s'
  assume h: "tsan_main sched (tsan_initial g) = Some (r, s')"
  note f = tsan_main_complete [OF h c0]
  show "0 < counter s'" and "counter s' \<le> 200000" using f by simp_all
  show "take 3 (drop 6 (out s')) = [OStr ''Final counter: '', OInt (counter s'), OEndl]"
    using f o0 by simp
next
  show "\<exists>sched r s'. tsan_main sched (tsan_initial g) = Some (r, s') \<and> counter s' = 200000"
    using tsan_main_serial [of g] by blast
next
  from tsan_main_lost_update [of g] obtain s' where
    "tsan_main lost_update_schedule (tsan_initial g) = Some (0, s')" "counter s' = 100000" by blast
  then have "tsan_main lost_update_schedule (tsan_initial g) = Some (0, s') \<and> counter s' \<noteq> 200000"
    by simp
  then show "\<exists>sched r s'. tsan_main sched (tsan_initial g) = Some (r, s') \<and> counter s' \<noteq> 200000"
    by blast
qed

text \<open>
  \<^verbatim>\<open>main\<close> does complete under the schedule that runs thread 1 and then thread 2.
\<close>

theorem tsan_main_final_counter_witness:
  "\<exists>r s'. tsan_main serial_schedule (tsan_initial (\<lambda>_. 0)) = Some (r, s') \<and>
          0 < counter s' \<and> counter s' \<le> 200000"
proof -
  from tsan_main_serial_completes [of "\<lambda>_. 0"] obtain r s' where
    h: "tsan_main serial_schedule (tsan_initial (\<lambda>_. 0)) = Some (r, s')" by blast
  with tsan_main_final_counter [of "\<lambda>_. 0"] have "0 < counter s' \<and> counter s' \<le> 200000"
    by blast
  with h show ?thesis by blast
qed


section \<open>Exit status\<close>

lemma asan_main_returns: "fst (run_state asan_main (initial g)) = 0"
  by (simp add: asan_main_def initial_def prim_defs Let_def split_beta)

lemma msan_main_returns: "fst (run_state msan_main (initial g)) = 0"
  by (simp add: msan_main_def initial_def prim_defs Let_def split_beta)

lemma ubsan_main_returns: "fst (run_state ubsan_main (initial g)) = 0"
  by (simp add: ubsan_main_def initial_def prim_defs INT_BITS_def Let_def split_beta)

lemma semgrep_main_returns: "fst (run_state semgrep_main (semgrep_initial g)) = 0"
  by (simp add: semgrep_main_def semgrep_initial_def prim_defs Let_def split_beta)


text \<open>
  C8. Each of the five programs returns 0 from \<^verbatim>\<open>main\<close> on every execution that
  completes: for every environment, and for \<^verbatim>\<open>tsan_example.cpp\<close> for every schedule
  under which both threads are joined.
\<close>

theorem every_main_returns_zero:
  "fst (run_state asan_main (initial g)) = 0 \<and>
   fst (run_state msan_main (initial g)) = 0 \<and>
   fst (run_state ubsan_main (initial g)) = 0 \<and>
   fst (run_state semgrep_main (semgrep_initial g)) = 0 \<and>
   (\<forall>sched r s'. tsan_main sched (tsan_initial g) = Some (r, s') \<longrightarrow> r = 0)"
proof (intro conjI allI impI)
  fix sched r s'
  assume "tsan_main sched (tsan_initial g) = Some (r, s')"
  then show "r = 0"
    by (simp add: tsan_main_eq Let_def split: if_splits)
qed (rule asan_main_returns msan_main_returns ubsan_main_returns semgrep_main_returns)+

text \<open>
  \<^verbatim>\<open>main\<close> of \<^verbatim>\<open>tsan_example.cpp\<close> does complete under the schedule with the lost
  update.
\<close>

theorem every_main_returns_zero_witness:
  "\<exists>r s'. tsan_main lost_update_schedule (tsan_initial (\<lambda>_. 0)) = Some (r, s') \<and> r = 0"
proof -
  from tsan_main_lost_update_completes [of "\<lambda>_. 0"] obtain r s' where
    h: "tsan_main lost_update_schedule (tsan_initial (\<lambda>_. 0)) = Some (r, s')" by blast
  with every_main_returns_zero [of "\<lambda>_. 0"] have "r = 0" by blast
  with h show ?thesis by blast
qed

end
